theory Spec2Isabelle
  imports Main "HOL-Library.AList"
begin

section \<open>Values and errors of the host language\<close>

text \<open>
  The cache stores values of type \<open>any\<close>. Only their truthiness matters to the code
  (\<open>if (cached) return cached\<close>), so the model keeps the JavaScript value kinds and the
  language's truthiness test. Numbers are taken as integers: timestamps, sizes and attempt
  counts are whole numbers in every run of the code.
\<close>

datatype js_value =
    JUndefined
  | JNull
  | JBool bool
  | JNum int
  | JStr string
  | JArray "js_value list"
  | JObject "(string \<times> js_value) list"

fun truthy :: "js_value \<Rightarrow> bool" where
  "truthy JUndefined = False"
| "truthy JNull = False"
| "truthy (JBool b) = b"
| "truthy (JNum n) = (n \<noteq> 0)"
| "truthy (JStr s) = (s \<noteq> [])"
| "truthy (JArray xs) = True"
| "truthy (JObject fs) = True"

text \<open>
  \<open>Error m\<close> is \<open>new Error(m)\<close> and every error the platform rejects with;
  \<open>HttpError s\<close> is \<open>new Error(`HTTP error! status: ${s}`)\<close>.
\<close>

datatype js_error = Error string | HttpError nat

section \<open>CacheManager\<close>

record entry =
  val :: js_value
  timestamp :: int

record CacheOptions =
  maxAge :: int
  maxSize :: int

text \<open>
  The field \<open>cache\<close> is a JavaScript \<open>Map\<close>: keys are unique, iteration follows
  insertion order, \<open>Map.set\<close> on a present key replaces the value in place and on a new
  key appends, \<open>Map.delete\<close> removes the key. That is an association list with
  \<open>AList.update\<close> and \<open>AList.delete\<close>; \<open>map_of\<close> is \<open>Map.get\<close> and \<open>length\<close>
  is \<open>Map.size\<close>.
\<close>

record CacheManager =
  cache :: "(string \<times> entry) list"
  options :: CacheOptions

text \<open>
  The scan of \<open>evictOldest\<close>. \<open>oldestTimestamp\<close> starts as \<open>Infinity\<close>, here
  \<open>None\<close>; every timestamp is below \<open>Infinity\<close>.
\<close>

fun below :: "int \<Rightarrow> int option \<Rightarrow> bool" where
  "below t None = True"
| "below t (Some u) = (t < u)"

fun oldest_step :: "string option \<times> int option \<Rightarrow> string \<times> entry \<Rightarrow> string option \<times> int option" where
  "oldest_step (oldestKey, oldestTimestamp) (key, e) =
     (if below (timestamp e) oldestTimestamp then (Some key, Some (timestamp e))
      else (oldestKey, oldestTimestamp))"

definition oldest_scan :: "(string \<times> entry) list \<Rightarrow> string option \<times> int option" where
  "oldest_scan m = foldl oldest_step (None, None) m"

text \<open>
  \<open>if (oldestKey) this.cache.delete(oldestKey)\<close>: the test is the truthiness of a
  \<open>string | null\<close>, false for \<open>null\<close> and for the empty string.
\<close>

definition evictOldest :: "CacheManager \<Rightarrow> CacheManager" where
  "evictOldest cm =
     (case fst (oldest_scan (cache cm)) of
        None \<Rightarrow> cm
      | Some oldestKey \<Rightarrow>
          if oldestKey \<noteq> [] then cm\<lparr>cache := AList.delete oldestKey (cache cm)\<rparr> else cm)"

text \<open>\<open>set(key, value)\<close>; the argument \<open>now\<close> is the reading of \<open>Date.now()\<close>.\<close>

definition CacheManager_set :: "CacheManager \<Rightarrow> int \<Rightarrow> string \<Rightarrow> js_value \<Rightarrow> CacheManager" where
  "CacheManager_set cm now key v =
     (let cm' = (if int (length (cache cm)) \<ge> maxSize (options cm) then evictOldest cm else cm)
      in cm'\<lparr>cache := AList.update key \<lparr>val = v, timestamp = now\<rparr> (cache cm')\<rparr>)"

text \<open>\<open>get(key)\<close> returns the value, or \<open>null\<close>, together with the cache it leaves.\<close>

definition CacheManager_get :: "CacheManager \<Rightarrow> int \<Rightarrow> string \<Rightarrow> js_value \<times> CacheManager" where
  "CacheManager_get cm now key =
     (case map_of (cache cm) key of
        None \<Rightarrow> (JNull, cm)
      | Some e \<Rightarrow>
          if now - timestamp e > maxAge (options cm)
          then (JNull, cm\<lparr>cache := AList.delete key (cache cm)\<rparr>)
          else (val e, cm))"

definition clear :: "CacheManager \<Rightarrow> CacheManager" where
  "clear cm = cm\<lparr>cache := []\<rparr>"

text \<open>The callback that \<open>setupCleanupInterval\<close> hands to \<open>setInterval\<close>.\<close>

definition cleanup_callback :: "CacheManager \<Rightarrow> int \<Rightarrow> CacheManager" where
  "cleanup_callback cm now =
     cm\<lparr>cache := filter (\<lambda>(key, e). \<not> (now - timestamp e > maxAge (options cm))) (cache cm)\<rparr>"

text \<open>
  The timer table of the runtime holds the period of every scheduled interval; a handle is
  an index into it. \<open>setInterval\<close> schedules and returns the handle, \<open>clearInterval\<close>
  releases the slot.
\<close>

type_synonym timers = "int option list"

definition setInterval :: "int \<Rightarrow> timers \<Rightarrow> nat \<times> timers" where
  "setInterval period ts = (length ts, ts @ [Some period])"

definition clearInterval :: "nat \<Rightarrow> timers \<Rightarrow> timers" where
  "clearInterval h ts = (if h < length ts then ts[h := None] else ts)"

text \<open>
  \<open>setupCleanupInterval\<close> calls \<open>setInterval\<close> with the period \<open>maxAge\<close> and drops
  the handle it returns; the constructor stores the options and calls it.
\<close>

definition setupCleanupInterval :: "CacheManager \<Rightarrow> timers \<Rightarrow> timers" where
  "setupCleanupInterval cm ts = snd (setInterval (maxAge (options cm)) ts)"

definition new_CacheManager :: "CacheOptions \<Rightarrow> timers \<Rightarrow> CacheManager \<times> timers" where
  "new_CacheManager opts ts =
     (let cm = \<lparr>cache = [], options = opts\<rparr> in (cm, setupCleanupInterval cm ts))"

text \<open>
  A use of the public interface of the class: the three public methods, and the firing of
  the scheduled callback. Each step carries the reading of \<open>Date.now()\<close> at which it runs.
  No method of the class takes or returns the timer table.
\<close>

datatype call = Set string js_value | Get string | Clear | Sweep

fun exec :: "CacheManager \<times> timers \<Rightarrow> int \<times> call \<Rightarrow> CacheManager \<times> timers" where
  "exec (cm, ts) (now, Set key v) = (CacheManager_set cm now key v, ts)"
| "exec (cm, ts) (now, Get key) = (snd (CacheManager_get cm now key), ts)"
| "exec (cm, ts) (now, Clear) = (clear cm, ts)"
| "exec (cm, ts) (now, Sweep) = (cleanup_callback cm now, ts)"

definition run :: "CacheManager \<times> timers \<Rightarrow> (int \<times> call) list \<Rightarrow> CacheManager \<times> timers" where
  "run s calls = foldl exec s calls"

section \<open>ApiClient\<close>

record ApiConfig =
  baseUrl :: string
  timeout :: int
  retryAttempts :: int

record ApiClient =
  config :: ApiConfig
  cacheManager :: CacheManager

text \<open>
  The constructor. The authentication manager only contributes a header to each call of
  \<open>fetch\<close> and is left out, as are the other arguments of \<open>fetch\<close>: none of them
  reaches the control flow of \<open>request\<close>.
\<close>

definition new_ApiClient :: "ApiConfig \<Rightarrow> timers \<Rightarrow> ApiClient \<times> timers" where
  "new_ApiClient cfg ts =
     (let (cm, ts') = new_CacheManager \<lparr>maxAge = 300000, maxSize = 100\<rparr> ts
      in (\<lparr>config = cfg, cacheManager = cm\<rparr>, ts'))"

text \<open>
  What one call of \<open>fetch\<close> settles to: a rejection (network failure, or the abort that the
  timeout triggers), or a response with its \<open>ok\<close> flag, its status and the outcome of
  \<open>response.json()\<close>.
\<close>

datatype fetch_result = Rejected js_error | Response bool nat "js_error + js_value"

text \<open>
  The platform: \<open>JSON_stringify b\<close> is the text that \<open>${JSON.stringify(b)}\<close> puts into
  the cache key, and \<open>fetch i\<close> is the time taken and the outcome of the call of
  \<open>fetch\<close> that follows \<open>i\<close> earlier ones.
\<close>

record platform =
  JSON_stringify :: "js_value \<Rightarrow> string"
  fetch :: "nat \<Rightarrow> int \<times> fetch_result"

record request_options =
  body :: js_value
  useCache :: bool

text \<open>What a call of \<open>request\<close> does to the outside: the clock, the calls of \<open>fetch\<close>
  made and the delays waited for, in order.\<close>

record io =
  clock :: int
  fetches :: nat
  delays :: "int list"

fun executeRequest :: "fetch_result \<Rightarrow> js_error + js_value" where
  "executeRequest (Rejected err) = Inl err"
| "executeRequest (Response ok status json) = (if \<not> ok then Inl (HttpError status) else json)"

definition cacheKey :: "platform \<Rightarrow> string \<Rightarrow> string \<Rightarrow> request_options \<Rightarrow> string" where
  "cacheKey p method endpoint opts =
     method @ '':'' @ endpoint @ '':'' @ JSON_stringify p (body opts)"

text \<open>
  The \<open>while\<close> loop of \<open>request\<close>, from the value \<open>attempt\<close> on. A call of
  \<open>executeRequest\<close> advances the clock by the time the call of \<open>fetch\<close> takes; the wait
  before the next attempt advances it by the delay \<open>1000 * attempt\<close>.
\<close>

function attempt_loop ::
  "platform \<Rightarrow> ApiClient \<Rightarrow> string \<Rightarrow> request_options \<Rightarrow> nat \<Rightarrow> io
     \<Rightarrow> (js_error + js_value) \<times> ApiClient \<times> io" where
  "attempt_loop p client key opts attempt w =
     (if int attempt < retryAttempts (config client) then
        (let w1 = w\<lparr>clock := clock w + fst (fetch p (fetches w)), fetches := Suc (fetches w)\<rparr>
         in case executeRequest (snd (fetch p (fetches w))) of
              Inr response \<Rightarrow>
                (Inr response,
                 (if useCache opts
                  then client\<lparr>cacheManager :=
                         CacheManager_set (cacheManager client) (clock w1) key response\<rparr>
                  else client),
                 w1)
            | Inl error \<Rightarrow>
                if int (Suc attempt) = retryAttempts (config client) then (Inl error, client, w1)
                else attempt_loop p client key opts (Suc attempt)
                       (w1\<lparr>clock := clock w1 + 1000 * int (Suc attempt),
                           delays := delays w1 @ [1000 * int (Suc attempt)]\<rparr>))
      else (Inl (Error ''Request failed after all retry attempts''), client, w))"
  by pat_completeness auto
termination
  by (relation "measure (\<lambda>(p, client, key, opts, attempt, w).
         nat (retryAttempts (config client) - int attempt))") auto

declare attempt_loop.simps [simp del]

text \<open>
  \<open>request(method, endpoint, options)\<close>, called when \<open>Date.now()\<close> reads \<open>now\<close>. The
  result is the value the promise resolves with (\<open>Inr\<close>) or the error it rejects with
  (\<open>Inl\<close>), the client as the call leaves it, and what the call did to the outside.
\<close>

definition request ::
  "platform \<Rightarrow> ApiClient \<Rightarrow> int \<Rightarrow> string \<Rightarrow> string \<Rightarrow> request_options
     \<Rightarrow> (js_error + js_value) \<times> ApiClient \<times> io" where
  "request p client now method endpoint opts =
     (let key = cacheKey p method endpoint opts;
          w = \<lparr>clock = now, fetches = 0, delays = []\<rparr>
      in if useCache opts then
           (let cached = fst (CacheManager_get (cacheManager client) now key);
                client' = client\<lparr>cacheManager := snd (CacheManager_get (cacheManager client) now key)\<rparr>
            in if truthy cached then (Inr cached, client', w)
               else attempt_loop p client' key opts 0 w)
         else attempt_loop p client key opts 0 w)"

section \<open>Expiry on read\<close>

lemma get_present_fresh:
  assumes "map_of (cache cm) k = Some e" and "now - timestamp e \<le> maxAge (options cm)"
  shows "CacheManager_get cm now k = (val e, cm)"
  using assms by (simp add: CacheManager_get_def)

lemma get_present_expired:
  assumes "map_of (cache cm) k = Some e" and "now - timestamp e > maxAge (options cm)"
  shows "CacheManager_get cm now k = (JNull, cm\<lparr>cache := AList.delete k (cache cm)\<rparr>)"
  using assms by (simp add: CacheManager_get_def)

lemma get_absent:
  assumes "map_of (cache cm) k = None"
  shows "CacheManager_get cm now k = (JNull, cm)"
  using assms by (simp add: CacheManager_get_def)

text \<open>
  C6. A \<open>get(k)\<close> on an entry older than \<open>maxAge\<close> returns \<open>null\<close> and deletes the entry,
  so every later \<open>get(k)\<close>, at any time and with no sweep in between, returns \<open>null\<close> too;
  a \<open>get(k)\<close> on an entry of age at most \<open>maxAge\<close>, the bound included, returns the stored
  value.
\<close>

theorem get_expiry_destructive:
  assumes "map_of (cache cm) k = Some e"
  shows "(now - timestamp e > maxAge (options cm) \<longrightarrow>
            fst (CacheManager_get cm now k) = JNull
          \<and> map_of (cache (snd (CacheManager_get cm now k))) k = None
          \<and> (\<forall>later. fst (CacheManager_get (snd (CacheManager_get cm now k)) later k) = JNull))
       \<and> (now - timestamp e \<le> maxAge (options cm) \<longrightarrow>
            fst (CacheManager_get cm now k) = val e)"
proof (intro conjI impI)
  assume old: "now - timestamp e > maxAge (options cm)"
  let ?cm' = "cm\<lparr>cache := AList.delete k (cache cm)\<rparr>"
  have g: "CacheManager_get cm now k = (JNull, ?cm')"
    using assms old by (rule get_present_expired)
  have gone: "map_of (cache ?cm') k = None"
    by (simp add: delete_conv')
  show "fst (CacheManager_get cm now k) = JNull"
    by (simp add: g)
  show "map_of (cache (snd (CacheManager_get cm now k))) k = None"
    using gone by (simp add: g)
  show "\<forall>later. fst (CacheManager_get (snd (CacheManager_get cm now k)) later k) = JNull"
    using get_absent [OF gone] by (simp add: g)
next
  assume "now - timestamp e \<le> maxAge (options cm)"
  with assms show "fst (CacheManager_get cm now k) = val e"
    by (simp add: get_present_fresh)
qed

theorem get_expiry_destructive_witness:
  "map_of (cache \<lparr>cache = [(''a'', \<lparr>val = JStr ''x'', timestamp = 0\<rparr>)],
                  options = \<lparr>maxAge = 1000, maxSize = 2\<rparr>\<rparr>) ''a''
     = Some \<lparr>val = JStr ''x'', timestamp = 0\<rparr>
   \<and> (1001::int) - 0 > 1000
   \<and> fst (CacheManager_get \<lparr>cache = [(''a'', \<lparr>val = JStr ''x'', timestamp = 0\<rparr>)],
                  options = \<lparr>maxAge = 1000, maxSize = 2\<rparr>\<rparr> 1001 ''a'') = JNull
   \<and> fst (CacheManager_get
            (snd (CacheManager_get \<lparr>cache = [(''a'', \<lparr>val = JStr ''x'', timestamp = 0\<rparr>)],
                  options = \<lparr>maxAge = 1000, maxSize = 2\<rparr>\<rparr> 1001 ''a'')) 1002 ''a'') = JNull
   \<and> (1000::int) - 0 \<le> 1000
   \<and> fst (CacheManager_get \<lparr>cache = [(''a'', \<lparr>val = JStr ''x'', timestamp = 0\<rparr>)],
                  options = \<lparr>maxAge = 1000, maxSize = 2\<rparr>\<rparr> 1000 ''a'') = JStr ''x''"
  using get_expiry_destructive
          [of "\<lparr>cache = [(''a'', \<lparr>val = JStr ''x'', timestamp = 0\<rparr>)],
                options = \<lparr>maxAge = 1000, maxSize = 2\<rparr>\<rparr>" "''a''"
              "\<lparr>val = JStr ''x'', timestamp = 0\<rparr>" 1001]
        get_expiry_destructive
          [of "\<lparr>cache = [(''a'', \<lparr>val = JStr ''x'', timestamp = 0\<rparr>)],
                options = \<lparr>maxAge = 1000, maxSize = 2\<rparr>\<rparr>" "''a''"
              "\<lparr>val = JStr ''x'', timestamp = 0\<rparr>" 1000]
  by simp

section \<open>Reads of live entries\<close>

text \<open>
  C10. A \<open>get(k)\<close> on a present entry of age at most \<open>maxAge\<close> returns the stored value and
  leaves the whole cache state as it was: the entry keeps its timestamp, so its expiry
  deadline does not move, and \<open>evictOldest\<close> selects after the read what it selected before.
\<close>

theorem get_fresh_frame:
  assumes "map_of (cache cm) k = Some e" and "now - timestamp e \<le> maxAge (options cm)"
  shows "CacheManager_get cm now k = (val e, cm)
       \<and> map_of (cache (snd (CacheManager_get cm now k))) k = Some e
       \<and> evictOldest (snd (CacheManager_get cm now k)) = evictOldest cm"
  using assms by (simp add: get_present_fresh)

theorem get_fresh_frame_witness:
  "map_of (cache \<lparr>cache = [(''a'', \<lparr>val = JNum 7, timestamp = 5\<rparr>),
                           (''b'', \<lparr>val = JNum 8, timestamp = 6\<rparr>)],
                  options = \<lparr>maxAge = 100, maxSize = 2\<rparr>\<rparr>) ''a''
     = Some \<lparr>val = JNum 7, timestamp = 5\<rparr>
   \<and> (50::int) - 5 \<le> 100
   \<and> CacheManager_get \<lparr>cache = [(''a'', \<lparr>val = JNum 7, timestamp = 5\<rparr>),
                                 (''b'', \<lparr>val = JNum 8, timestamp = 6\<rparr>)],
                        options = \<lparr>maxAge = 100, maxSize = 2\<rparr>\<rparr> 50 ''a''
     = (JNum 7, \<lparr>cache = [(''a'', \<lparr>val = JNum 7, timestamp = 5\<rparr>),
                          (''b'', \<lparr>val = JNum 8, timestamp = 6\<rparr>)],
                 options = \<lparr>maxAge = 100, maxSize = 2\<rparr>\<rparr>)"
  using get_fresh_frame
          [of "\<lparr>cache = [(''a'', \<lparr>val = JNum 7, timestamp = 5\<rparr>),
                         (''b'', \<lparr>val = JNum 8, timestamp = 6\<rparr>)],
                options = \<lparr>maxAge = 100, maxSize = 2\<rparr>\<rparr>" "''a''"
              "\<lparr>val = JNum 7, timestamp = 5\<rparr>" 50]
  by simp

section \<open>Capacity and eviction\<close>

text \<open>
  The scan of \<open>evictOldest\<close> selects nothing on an empty map, and otherwise an entry of
  the map whose timestamp no other entry undercuts.
\<close>

lemma oldest_scan_snoc:
  "oldest_scan (m @ [x]) = oldest_step (oldest_scan m) x"
  by (simp add: oldest_scan_def)

lemma oldest_scan_min:
  "(m = [] \<and> oldest_scan m = (None, None))
   \<or> (\<exists>k e. oldest_scan m = (Some k, Some (timestamp e)) \<and> (k, e) \<in> set m
          \<and> (\<forall>(k', e') \<in> set m. timestamp e \<le> timestamp e'))"
proof (induction m rule: rev_induct)
  case Nil
  show ?case by (simp add: oldest_scan_def)
next
  case (snoc x m)
  obtain kx ex where x: "x = (kx, ex)"
    by (cases x)
  from snoc show ?case
  proof (elim disjE conjE exE)
    assume "m = []" and "oldest_scan m = (None, None)"
    then show ?thesis
      by (simp add: oldest_scan_def x)
  next
    fix k e
    assume s: "oldest_scan m = (Some k, Some (timestamp e))"
      and mem: "(k, e) \<in> set m"
      and low: "\<forall>(k', e') \<in> set m. timestamp e \<le> timestamp e'"
    show ?thesis
    proof (cases "timestamp ex < timestamp e")
      case True
      then have "oldest_scan (m @ [x]) = (Some kx, Some (timestamp ex))"
        by (simp add: oldest_scan_snoc s x)
      moreover have "\<forall>(k', e') \<in> set (m @ [x]). timestamp ex \<le> timestamp e'"
        using low True by (auto simp: x)
      ultimately show ?thesis
        by (auto simp: x)
    next
      case False
      then have "oldest_scan (m @ [x]) = (Some k, Some (timestamp e))"
        by (simp add: oldest_scan_snoc s x)
      moreover have "\<forall>(k', e') \<in> set (m @ [x]). timestamp e \<le> timestamp e'"
        using low False by (auto simp: x)
      ultimately show ?thesis
        using mem by auto
    qed
  qed
qed

text \<open>
  Where the entry at the head of the iteration order is as old as any other, the scan
  selects it: a later entry replaces the selection only with a strictly smaller timestamp.
\<close>

lemma oldest_scan_keeps:
  assumes "\<forall>(k, e) \<in> set rest. t0 \<le> timestamp e"
  shows "foldl oldest_step (Some k0, Some t0) rest = (Some k0, Some t0)"
  using assms by (induction rest) auto

lemma oldest_scan_head:
  assumes "\<forall>(k, e) \<in> set rest. timestamp e0 \<le> timestamp e"
  shows "oldest_scan ((k0, e0) # rest) = (Some k0, Some (timestamp e0))"
  using oldest_scan_keeps [OF assms] by (simp add: oldest_scan_def)
lemma evictOldest_options: "options (evictOldest cm) = options cm"
  by (simp add: evictOldest_def split: option.splits)

lemma evictOldest_lookup:
  assumes "fst (oldest_scan (cache cm)) \<noteq> Some k'"
  shows "map_of (cache (evictOldest cm)) k' = map_of (cache cm) k'"
  using assms by (auto simp: evictOldest_def delete_conv' split: option.splits)

lemma set_lookup_same:
  "map_of (cache (CacheManager_set cm now k v)) k = Some \<lparr>val = v, timestamp = now\<rparr>"
  by (simp add: CacheManager_set_def Let_def update_conv')

lemma set_lookup_other_below:
  assumes "int (length (cache cm)) < maxSize (options cm)" and "k' \<noteq> k"
  shows "map_of (cache (CacheManager_set cm now k v)) k' = map_of (cache cm) k'"
  using assms by (simp add: CacheManager_set_def Let_def update_conv')

lemma set_lookup_other:
  assumes "k' \<noteq> k" and "fst (oldest_scan (cache cm)) \<noteq> Some k'"
  shows "map_of (cache (CacheManager_set cm now k v)) k' = map_of (cache cm) k'"
  using assms by (simp add: CacheManager_set_def Let_def update_conv' evictOldest_lookup)

lemma length_update_present:
  "k \<in> fst ` set al \<Longrightarrow> length (AList.update k v al) = length al"
  by (induction al) auto

lemma length_update_le: "length (AList.update k v al) \<le> Suc (length al)"
  by (induction al) auto

lemma length_delete_present:
  assumes "k \<in> fst ` set al"
  shows "length (AList.delete k al) < length al"
proof -
  obtain v where "(k, v) \<in> set al"
    using assms by auto
  then show ?thesis
    unfolding AList.delete_eq by (intro length_filter_less [of "(k, v)"]) auto
qed

lemma set_size_below:
  assumes "int (length (cache cm)) < maxSize (options cm)" and "map_of (cache cm) k = Some e"
  shows "length (cache (CacheManager_set cm now k v)) = length (cache cm)"
proof -
  have "k \<in> fst ` set (cache cm)"
    using assms(2) by (metis domI dom_map_of_conv_image_fst)
  then show ?thesis
    using assms(1) by (simp add: CacheManager_set_def Let_def length_update_present)
qed

text \<open>
  C1. With \<open>maxSize = 1\<close>, \<open>set("", 1)\<close> at time 0 and \<open>set("a", 2)\<close> at time 1 leave two
  entries in the cache. The second call finds the cache full and runs \<open>evictOldest\<close>, whose
  scan selects the key \<open>""\<close>; the test \<open>if (oldestKey)\<close> is false for the empty string, so
  nothing is deleted before the insertion.
\<close>

theorem set_exceeds_maxSize_empty_key:
  "length (cache (CacheManager_set
                    (CacheManager_set \<lparr>cache = [], options = \<lparr>maxAge = 1000, maxSize = 1\<rparr>\<rparr>
                       0 '''' (JNum 1))
                    1 ''a'' (JNum 2))) = 2"
  by (simp add: CacheManager_set_def evictOldest_def oldest_scan_def)

text \<open>
  Apart from the empty key the bound holds. If \<open>maxSize\<close> is positive, the cache holds at
  most \<open>maxSize\<close> entries and none under the empty string, then \<open>set\<close> leaves at most
  \<open>maxSize\<close> entries: a full cache is not empty, the scan selects one of its keys, and
  that key is deleted.
\<close>

lemma evictOldest_size:
  assumes "cache cm \<noteq> []" and "[] \<notin> fst ` set (cache cm)"
  shows "length (cache (evictOldest cm)) < length (cache cm)"
proof -
  obtain k e where s: "oldest_scan (cache cm) = (Some k, Some (timestamp e))"
    and mem: "(k, e) \<in> set (cache cm)"
    using oldest_scan_min [of "cache cm"] assms(1) by blast
  have k: "k \<in> fst ` set (cache cm)"
    using mem by force
  have "k \<noteq> []"
  proof
    assume "k = []"
    with k assms(2) show False by simp
  qed
  then have "cache (evictOldest cm) = AList.delete k (cache cm)"
    by (simp add: evictOldest_def s)
  then show ?thesis
    using length_delete_present [OF k] by simp
qed

lemma evictOldest_entries: "set (cache (evictOldest cm)) \<subseteq> set (cache cm)"
  by (auto simp: evictOldest_def AList.delete_eq split: option.splits)

lemma evictOldest_keys: "fst ` set (cache (evictOldest cm)) \<subseteq> fst ` set (cache cm)"
  using evictOldest_entries by (rule image_mono)

lemma set_size_bound:
  assumes "0 < maxSize (options cm)"
    and "int (length (cache cm)) \<le> maxSize (options cm)"
    and "[] \<notin> fst ` set (cache cm)"
  shows "int (length (cache (CacheManager_set cm now key v))) \<le> maxSize (options cm)"
proof (cases "int (length (cache cm)) \<ge> maxSize (options cm)")
  case True
  then have "cache cm \<noteq> []"
    using assms(1) by auto
  then have "length (cache (evictOldest cm)) < length (cache cm)"
    using assms(3) by (rule evictOldest_size)
  moreover have "length (AList.update key \<lparr>val = v, timestamp = now\<rparr> (cache (evictOldest cm)))
                   \<le> Suc (length (cache (evictOldest cm)))"
    by (rule length_update_le)
  ultimately show ?thesis
    using True assms(2) by (simp add: CacheManager_set_def Let_def)
next
  case False
  moreover have "length (AList.update key \<lparr>val = v, timestamp = now\<rparr> (cache cm))
                   \<le> Suc (length (cache cm))"
    by (rule length_update_le)
  ultimately show ?thesis
    by (simp add: CacheManager_set_def Let_def)
qed

lemma set_options: "options (CacheManager_set cm now key v) = options cm"
  by (simp add: CacheManager_set_def Let_def evictOldest_options)

lemma set_keys:
  "fst ` set (cache (CacheManager_set cm now key v)) \<subseteq> insert key (fst ` set (cache cm))"
  using evictOldest_keys [of cm] by (auto simp: CacheManager_set_def Let_def dom_update)

lemma get_options: "options (snd (CacheManager_get cm now key)) = options cm"
  by (simp add: CacheManager_get_def split: option.splits)

lemma get_entries: "set (cache (snd (CacheManager_get cm now key))) \<subseteq> set (cache cm)"
  by (auto simp: CacheManager_get_def AList.delete_eq split: option.splits)

lemma get_size: "length (cache (snd (CacheManager_get cm now key))) \<le> length (cache cm)"
  by (simp add: CacheManager_get_def length_delete_le split: option.splits)

lemma exec_size_bound:
  assumes "0 < maxSize (options cm)"
    and "int (length (cache cm)) \<le> maxSize (options cm)"
    and "[] \<notin> fst ` set (cache cm)"
    and "\<forall>key v. snd c = Set key v \<longrightarrow> key \<noteq> []"
  shows "options (fst (exec (cm, ts) c)) = options cm
       \<and> int (length (cache (fst (exec (cm, ts) c)))) \<le> maxSize (options cm)
       \<and> [] \<notin> fst ` set (cache (fst (exec (cm, ts) c)))"
proof (cases c)
  case (Pair now op)
  show ?thesis
  proof (cases op)
    case (Set key v)
    then have "key \<noteq> []"
      using assms(4) Pair by simp
    then have "[] \<notin> fst ` set (cache (CacheManager_set cm now key v))"
      using set_keys [of cm now key v] assms(3) by auto
    then show ?thesis
      using set_size_bound [OF assms(1-3)] by (simp add: Pair Set set_options)
  next
    case (Get key)
    have "[] \<notin> fst ` set (cache (snd (CacheManager_get cm now key)))"
      using get_entries [of cm now key] assms(3) by auto
    then show ?thesis
      using get_size [of cm now key] assms(2) by (simp add: Pair Get get_options)
  next
    case Clear
    then show ?thesis
      using assms(1) by (simp add: Pair clear_def)
  next
    case Sweep
    have "length (cache (cleanup_callback cm now)) \<le> length (cache cm)"
      by (simp add: cleanup_callback_def)
    then have "int (length (cache (cleanup_callback cm now))) \<le> maxSize (options cm)"
      using assms(2) by linarith
    moreover have "[] \<notin> fst ` set (cache (cleanup_callback cm now))"
      using assms(3) by (auto simp: cleanup_callback_def)
    moreover have "options (cleanup_callback cm now) = options cm"
      by (simp add: cleanup_callback_def)
    ultimately show ?thesis
      by (simp add: Pair Sweep)
  qed
qed

text \<open>
  So from a new cache with positive \<open>maxSize\<close>, through every sequence of \<open>set\<close>,
  \<open>get\<close>, \<open>clear\<close> and sweeps in which no \<open>set\<close> uses the empty string as key, the cache
  holds at most \<open>maxSize\<close> entries after every step.
\<close>

lemma run_snoc: "run s (calls @ [c]) = exec (run s calls) c"
  by (simp add: run_def)

lemma run_size_bound:
  assumes "0 < maxSize opts"
    and "\<forall>(now, c) \<in> set calls. \<forall>key v. c = Set key v \<longrightarrow> key \<noteq> []"
  shows "options (fst (run (new_CacheManager opts ts) calls)) = opts
       \<and> int (length (cache (fst (run (new_CacheManager opts ts) calls)))) \<le> maxSize opts
       \<and> [] \<notin> fst ` set (cache (fst (run (new_CacheManager opts ts) calls)))"
  using assms(2)
proof (induction calls rule: rev_induct)
  case Nil
  show ?case
    using assms(1) by (simp add: run_def new_CacheManager_def Let_def)
next
  case (snoc c calls)
  let ?s = "run (new_CacheManager opts ts) calls"
  have ih: "options (fst ?s) = opts"
    "int (length (cache (fst ?s))) \<le> maxSize opts"
    "[] \<notin> fst ` set (cache (fst ?s))"
    using snoc by auto
  have c: "\<forall>key v. snd c = Set key v \<longrightarrow> key \<noteq> []"
    using snoc.prems by (cases c) auto
  have "0 < maxSize (options (fst ?s))"
    and "int (length (cache (fst ?s))) \<le> maxSize (options (fst ?s))"
    using ih assms(1) by simp_all
  from exec_size_bound [OF this ih(3) c, of "snd ?s"] show ?case
    by (simp add: run_snoc ih(1))
qed

text \<open>
  C2, as stated, fails: with \<open>maxSize = 2\<close> and the keys \<open>a\<close> (time 0) and \<open>b\<close> (time 1)
  present, \<open>set("b", 3)\<close> at time 2 finds the cache at capacity, runs \<open>evictOldest\<close> without
  asking whether \<open>b\<close> is present, and the entry of \<open>a\<close> is gone.
\<close>

theorem set_existing_key_evicts_counterexample:
  "CacheManager_set
     (CacheManager_set \<lparr>cache = [], options = \<lparr>maxAge = 1000, maxSize = 2\<rparr>\<rparr> 0 ''a'' (JNum 1))
     1 ''b'' (JNum 2)
     = \<lparr>cache = [(''a'', \<lparr>val = JNum 1, timestamp = 0\<rparr>), (''b'', \<lparr>val = JNum 2, timestamp = 1\<rparr>)],
        options = \<lparr>maxAge = 1000, maxSize = 2\<rparr>\<rparr>
   \<and> map_of (cache \<lparr>cache = [(''a'', \<lparr>val = JNum 1, timestamp = 0\<rparr>),
                            (''b'', \<lparr>val = JNum 2, timestamp = 1\<rparr>)],
                   options = \<lparr>maxAge = 1000, maxSize = 2\<rparr>\<rparr>) ''b''
       = Some \<lparr>val = JNum 2, timestamp = 1\<rparr>
   \<and> map_of (cache \<lparr>cache = [(''a'', \<lparr>val = JNum 1, timestamp = 0\<rparr>),
                            (''b'', \<lparr>val = JNum 2, timestamp = 1\<rparr>)],
                   options = \<lparr>maxAge = 1000, maxSize = 2\<rparr>\<rparr>) ''a''
       = Some \<lparr>val = JNum 1, timestamp = 0\<rparr>
   \<and> map_of (cache (CacheManager_set
                      \<lparr>cache = [(''a'', \<lparr>val = JNum 1, timestamp = 0\<rparr>),
                                (''b'', \<lparr>val = JNum 2, timestamp = 1\<rparr>)],
                       options = \<lparr>maxAge = 1000, maxSize = 2\<rparr>\<rparr> 2 ''b'' (JNum 3))) ''a''
       = None"
  by (simp add: CacheManager_set_def evictOldest_def oldest_scan_def)

text \<open>
  An overwrite of a present key at capacity: where the scan selects a key that is neither
  the overwritten key nor the empty string, that entry is deleted and the cache ends with
  fewer entries than before.
\<close>

lemma set_at_capacity_evicts:
  assumes present: "map_of (cache cm) k = Some e"
    and full: "maxSize (options cm) \<le> int (length (cache cm))"
    and selected: "fst (oldest_scan (cache cm)) = Some k0"
    and "k0 \<noteq> []" and "k0 \<noteq> k"
  shows "map_of (cache (CacheManager_set cm now k v)) k0 = None
       \<and> length (cache (CacheManager_set cm now k v)) < length (cache cm)"
proof -
  let ?al = "AList.delete k0 (cache cm)"
  have ev: "cache (evictOldest cm) = ?al"
    using selected \<open>k0 \<noteq> []\<close> by (simp add: evictOldest_def)
  have after: "cache (CacheManager_set cm now k v)
                 = AList.update k \<lparr>val = v, timestamp = now\<rparr> ?al"
    using full by (simp add: CacheManager_set_def Let_def ev)
  have "map_of ?al k = Some e"
    using present \<open>k0 \<noteq> k\<close> by (simp add: delete_conv')
  then have "k \<in> fst ` set ?al"
    by (metis domI dom_map_of_conv_image_fst)
  then have same: "length (AList.update k \<lparr>val = v, timestamp = now\<rparr> ?al) = length ?al"
    by (rule length_update_present)
  obtain e0 where "(k0, e0) \<in> set (cache cm)"
    using oldest_scan_min [of "cache cm"] selected by auto
  then have "k0 \<in> fst ` set (cache cm)"
    by force
  then have less: "length ?al < length (cache cm)"
    by (rule length_delete_present)
  have "map_of (AList.update k \<lparr>val = v, timestamp = now\<rparr> ?al) k0 = None"
    using \<open>k0 \<noteq> k\<close> by (simp add: update_conv' delete_conv')
  then show ?thesis
    using same less by (simp add: after)
qed

lemma present_scan_selects:
  assumes "map_of (cache cm) k = Some e"
  shows "\<exists>k0 e0. fst (oldest_scan (cache cm)) = Some k0 \<and> (k0, e0) \<in> set (cache cm)"
proof -
  have "cache cm \<noteq> []"
    using assms by auto
  then show ?thesis
    using oldest_scan_min [of "cache cm"] by auto
qed

text \<open>
  C2, amended. For a key \<open>k\<close> already present, \<open>set(k, v)\<close> stores \<open>v\<close> under \<open>k\<close> with the
  current time. Below capacity (\<open>size < maxSize\<close>) it evicts nothing: the number of entries
  is unchanged and every entry under another key is still present. At capacity
  (\<open>size \<ge> maxSize\<close>) the scan of \<open>evictOldest\<close> runs although \<open>k\<close> is present: it selects
  an entry of smallest timestamp, and where the selected key is neither \<open>k\<close> nor the empty
  string that entry is gone after the call and the cache holds fewer entries than before.
  In every case an entry under a key other than \<open>k\<close> and other than the selected key is
  still present.
\<close>

theorem set_existing_key_frame:
  assumes "map_of (cache cm) k = Some e"
  shows "map_of (cache (CacheManager_set cm now k v)) k = Some \<lparr>val = v, timestamp = now\<rparr>
       \<and> (int (length (cache cm)) < maxSize (options cm) \<longrightarrow>
            length (cache (CacheManager_set cm now k v)) = length (cache cm)
          \<and> (\<forall>k'. k' \<noteq> k \<longrightarrow>
                map_of (cache (CacheManager_set cm now k v)) k' = map_of (cache cm) k'))
       \<and> (\<forall>k'. k' \<noteq> k \<longrightarrow> fst (oldest_scan (cache cm)) \<noteq> Some k' \<longrightarrow>
             map_of (cache (CacheManager_set cm now k v)) k' = map_of (cache cm) k')
       \<and> (\<forall>k0. fst (oldest_scan (cache cm)) = Some k0 \<longrightarrow>
             (\<exists>e0. (k0, e0) \<in> set (cache cm)
                \<and> (\<forall>(k', e') \<in> set (cache cm). timestamp e0 \<le> timestamp e')))
       \<and> (maxSize (options cm) \<le> int (length (cache cm)) \<longrightarrow>
             (\<exists>k0 e0. fst (oldest_scan (cache cm)) = Some k0 \<and> (k0, e0) \<in> set (cache cm))
           \<and> (\<forall>k0. fst (oldest_scan (cache cm)) = Some k0 \<longrightarrow> k0 \<noteq> [] \<longrightarrow> k0 \<noteq> k \<longrightarrow>
                  map_of (cache (CacheManager_set cm now k v)) k0 = None
                \<and> length (cache (CacheManager_set cm now k v)) < length (cache cm)))"
proof (intro conjI impI allI)
  show "map_of (cache (CacheManager_set cm now k v)) k = Some \<lparr>val = v, timestamp = now\<rparr>"
    by (rule set_lookup_same)
next
  assume "int (length (cache cm)) < maxSize (options cm)"
  then show "length (cache (CacheManager_set cm now k v)) = length (cache cm)"
    using assms by (rule set_size_below)
next
  fix k'
  assume "int (length (cache cm)) < maxSize (options cm)" and "k' \<noteq> k"
  then show "map_of (cache (CacheManager_set cm now k v)) k' = map_of (cache cm) k'"
    by (rule set_lookup_other_below)
next
  fix k'
  assume "k' \<noteq> k" and "fst (oldest_scan (cache cm)) \<noteq> Some k'"
  then show "map_of (cache (CacheManager_set cm now k v)) k' = map_of (cache cm) k'"
    by (rule set_lookup_other)
next
  fix k0
  assume "fst (oldest_scan (cache cm)) = Some k0"
  then show "\<exists>e0. (k0, e0) \<in> set (cache cm)
                \<and> (\<forall>(k', e') \<in> set (cache cm). timestamp e0 \<le> timestamp e')"
    using oldest_scan_min [of "cache cm"] by auto
next
  show "\<exists>k0 e0. fst (oldest_scan (cache cm)) = Some k0 \<and> (k0, e0) \<in> set (cache cm)"
    using assms by (rule present_scan_selects)
next
  fix k0
  assume "maxSize (options cm) \<le> int (length (cache cm))"
    and "fst (oldest_scan (cache cm)) = Some k0" and "k0 \<noteq> []" and "k0 \<noteq> k"
  with assms have r: "map_of (cache (CacheManager_set cm now k v)) k0 = None
       \<and> length (cache (CacheManager_set cm now k v)) < length (cache cm)"
    by (rule set_at_capacity_evicts)
  from r show "map_of (cache (CacheManager_set cm now k v)) k0 = None" by simp
  from r show "length (cache (CacheManager_set cm now k v)) < length (cache cm)" by simp
qed

theorem set_existing_key_frame_witness:
  "map_of (cache \<lparr>cache = [(''a'', \<lparr>val = JNum 1, timestamp = 0\<rparr>),
                          (''b'', \<lparr>val = JNum 2, timestamp = 1\<rparr>)],
                 options = \<lparr>maxAge = 1000, maxSize = 3\<rparr>\<rparr>) ''b''
     = Some \<lparr>val = JNum 2, timestamp = 1\<rparr>
   \<and> int (length (cache \<lparr>cache = [(''a'', \<lparr>val = JNum 1, timestamp = 0\<rparr>),
                                  (''b'', \<lparr>val = JNum 2, timestamp = 1\<rparr>)],
                         options = \<lparr>maxAge = 1000, maxSize = 3\<rparr>\<rparr>)) < 3
   \<and> ''a'' \<noteq> ''b''
   \<and> map_of (cache (CacheManager_set
                      \<lparr>cache = [(''a'', \<lparr>val = JNum 1, timestamp = 0\<rparr>),
                                (''b'', \<lparr>val = JNum 2, timestamp = 1\<rparr>)],
                       options = \<lparr>maxAge = 1000, maxSize = 3\<rparr>\<rparr> 2 ''b'' (JNum 3))) ''b''
       = Some \<lparr>val = JNum 3, timestamp = 2\<rparr>
   \<and> map_of (cache (CacheManager_set
                      \<lparr>cache = [(''a'', \<lparr>val = JNum 1, timestamp = 0\<rparr>),
                                (''b'', \<lparr>val = JNum 2, timestamp = 1\<rparr>)],
                       options = \<lparr>maxAge = 1000, maxSize = 3\<rparr>\<rparr> 2 ''b'' (JNum 3))) ''a''
       = Some \<lparr>val = JNum 1, timestamp = 0\<rparr>
   \<and> length (cache (CacheManager_set
                      \<lparr>cache = [(''a'', \<lparr>val = JNum 1, timestamp = 0\<rparr>),
                                (''b'', \<lparr>val = JNum 2, timestamp = 1\<rparr>)],
                       options = \<lparr>maxAge = 1000, maxSize = 3\<rparr>\<rparr> 2 ''b'' (JNum 3))) = 2
   \<and> map_of (cache \<lparr>cache = [(''a'', \<lparr>val = JNum 1, timestamp = 0\<rparr>),
                            (''b'', \<lparr>val = JNum 2, timestamp = 1\<rparr>),
                            (''c'', \<lparr>val = JNum 3, timestamp = 2\<rparr>)],
                   options = \<lparr>maxAge = 1000, maxSize = 3\<rparr>\<rparr>) ''b''
       = Some \<lparr>val = JNum 2, timestamp = 1\<rparr>
   \<and> (3::int) \<le> int (length (cache \<lparr>cache = [(''a'', \<lparr>val = JNum 1, timestamp = 0\<rparr>),
                            (''b'', \<lparr>val = JNum 2, timestamp = 1\<rparr>),
                            (''c'', \<lparr>val = JNum 3, timestamp = 2\<rparr>)],
                   options = \<lparr>maxAge = 1000, maxSize = 3\<rparr>\<rparr>))
   \<and> ''c'' \<noteq> ''b''
   \<and> fst (oldest_scan (cache \<lparr>cache = [(''a'', \<lparr>val = JNum 1, timestamp = 0\<rparr>),
                                       (''b'', \<lparr>val = JNum 2, timestamp = 1\<rparr>),
                                       (''c'', \<lparr>val = JNum 3, timestamp = 2\<rparr>)],
                              options = \<lparr>maxAge = 1000, maxSize = 3\<rparr>\<rparr>)) = Some ''a''
   \<and> ''a'' \<noteq> []
   \<and> map_of (cache (CacheManager_set
                      \<lparr>cache = [(''a'', \<lparr>val = JNum 1, timestamp = 0\<rparr>),
                                (''b'', \<lparr>val = JNum 2, timestamp = 1\<rparr>),
                                (''c'', \<lparr>val = JNum 3, timestamp = 2\<rparr>)],
                       options = \<lparr>maxAge = 1000, maxSize = 3\<rparr>\<rparr> 5 ''b'' (JNum 4))) ''c''
       = Some \<lparr>val = JNum 3, timestamp = 2\<rparr>
   \<and> map_of (cache (CacheManager_set
                      \<lparr>cache = [(''a'', \<lparr>val = JNum 1, timestamp = 0\<rparr>),
                                (''b'', \<lparr>val = JNum 2, timestamp = 1\<rparr>),
                                (''c'', \<lparr>val = JNum 3, timestamp = 2\<rparr>)],
                       options = \<lparr>maxAge = 1000, maxSize = 3\<rparr>\<rparr> 5 ''b'' (JNum 4))) ''a''
       = None
   \<and> length (cache (CacheManager_set
                      \<lparr>cache = [(''a'', \<lparr>val = JNum 1, timestamp = 0\<rparr>),
                                (''b'', \<lparr>val = JNum 2, timestamp = 1\<rparr>),
                                (''c'', \<lparr>val = JNum 3, timestamp = 2\<rparr>)],
                       options = \<lparr>maxAge = 1000, maxSize = 3\<rparr>\<rparr> 5 ''b'' (JNum 4))) < 3"
  using set_existing_key_frame
          [of "\<lparr>cache = [(''a'', \<lparr>val = JNum 1, timestamp = 0\<rparr>),
                         (''b'', \<lparr>val = JNum 2, timestamp = 1\<rparr>)],
                options = \<lparr>maxAge = 1000, maxSize = 3\<rparr>\<rparr>" "''b''"
              "\<lparr>val = JNum 2, timestamp = 1\<rparr>" 2 "JNum 3"]
        set_existing_key_frame
          [of "\<lparr>cache = [(''a'', \<lparr>val = JNum 1, timestamp = 0\<rparr>),
                         (''b'', \<lparr>val = JNum 2, timestamp = 1\<rparr>),
                         (''c'', \<lparr>val = JNum 3, timestamp = 2\<rparr>)],
                options = \<lparr>maxAge = 1000, maxSize = 3\<rparr>\<rparr>" "''b''"
              "\<lparr>val = JNum 2, timestamp = 1\<rparr>" 5 "JNum 4"]
  by (simp add: oldest_scan_def)

text \<open>
  C7. With \<open>maxSize = 2\<close>, inserting the three distinct keys \<open>""\<close>, \<open>b\<close>, \<open>c\<close> at the times
  10, 20, 30, with no read in between, leaves all three entries in the cache: the
  first-inserted key \<open>""\<close> is selected by the scan and then not deleted, since
  \<open>if (oldestKey)\<close> is false for the empty string.
\<close>

theorem evict_first_inserted_empty_key:
  "cache (CacheManager_set
           (CacheManager_set
              (CacheManager_set \<lparr>cache = [], options = \<lparr>maxAge = 1000, maxSize = 2\<rparr>\<rparr>
                 10 '''' (JStr ''first''))
              20 ''b'' (JStr ''second''))
           30 ''c'' (JStr ''third''))
     = [('''', \<lparr>val = JStr ''first'', timestamp = 10\<rparr>),
        (''b'', \<lparr>val = JStr ''second'', timestamp = 20\<rparr>),
        (''c'', \<lparr>val = JStr ''third'', timestamp = 30\<rparr>)]"
  by (simp add: CacheManager_set_def evictOldest_def oldest_scan_def)

text \<open>
  Apart from the empty key the oldest entry goes. Inserting distinct keys into a new cache
  appends them while there is room.
\<close>

lemma update_fresh:
  "k \<notin> fst ` set al \<Longrightarrow> AList.update k v al = al @ [(k, v)]"
  by (induction al) auto

lemma set_below_fresh:
  assumes "int (length (cache cm)) < maxSize (options cm)" and "key \<notin> fst ` set (cache cm)"
  shows "CacheManager_set cm now key v
           = cm\<lparr>cache := cache cm @ [(key, \<lparr>val = v, timestamp = now\<rparr>)]\<rparr>"
  using assms by (simp add: CacheManager_set_def Let_def update_fresh)

lemma run_fill:
  assumes "distinct (map (\<lambda>(t, k, v). k) ys)" and "int (length ys) \<le> maxSize opts"
  shows "fst (run (\<lparr>cache = [], options = opts\<rparr>, ts) (map (\<lambda>(t, k, v). (t, Set k v)) ys))
           = \<lparr>cache = map (\<lambda>(t, k, v). (k, \<lparr>val = v, timestamp = t\<rparr>)) ys, options = opts\<rparr>"
  using assms
proof (induction ys rule: rev_induct)
  case Nil
  show ?case by (simp add: run_def)
next
  case (snoc y ys)
  obtain t k v where y: "y = (t, k, v)"
    by (cases y)
  let ?s = "run (\<lparr>cache = [], options = opts\<rparr>, ts) (map (\<lambda>(t, k, v). (t, Set k v)) ys)"
  let ?cm = "\<lparr>cache = map (\<lambda>(t, k, v). (k, \<lparr>val = v, timestamp = t\<rparr>)) ys, options = opts\<rparr>"
  have ih: "fst ?s = ?cm"
    using snoc by simp
  have small: "int (length (cache ?cm)) < maxSize (options ?cm)"
    using snoc.prems(2) by simp
  have "k \<notin> (\<lambda>(t, k, v). k) ` set ys"
    using snoc.prems(1) by (simp add: y)
  then have fresh: "k \<notin> fst ` set (cache ?cm)"
    by (force simp: image_iff)
  have "fst (exec ?s (t, Set k v)) = CacheManager_set ?cm t k v"
    using ih by (cases ?s) simp
  also have "\<dots> = ?cm\<lparr>cache := cache ?cm @ [(k, \<lparr>val = v, timestamp = t\<rparr>)]\<rparr>"
    using small fresh by (rule set_below_fresh)
  finally show ?case
    by (simp add: run_snoc y)
qed

text \<open>
  With \<open>maxSize = N\<close> and \<open>N + 1\<close> distinct keys, inserted with no read in between, the
  first key not the empty string and its timestamp not above those of the next \<open>N - 1\<close>
  keys, the cache ends with the last \<open>N\<close> keys in insertion order: the first-inserted key
  is the one evicted.
\<close>

lemma evicts_first_inserted:
  assumes keys: "distinct (k0 # map (\<lambda>(t, k, v). k) rest @ [k])"
    and full: "int (Suc (length rest)) = maxSize opts"
    and order: "\<forall>(t', k', v') \<in> set rest. t0 \<le> t'"
    and nonempty: "k0 \<noteq> []"
  shows "fst (run (new_CacheManager opts ts)
                (map (\<lambda>(t, k, v). (t, Set k v)) ((t0, k0, v0) # rest @ [(t, k, v)])))
           = \<lparr>cache = map (\<lambda>(t, k, v). (k, \<lparr>val = v, timestamp = t\<rparr>)) (rest @ [(t, k, v)]),
              options = opts\<rparr>"
proof -
  let ?ys = "(t0, k0, v0) # rest"
  let ?e0 = "\<lparr>val = v0, timestamp = t0\<rparr>"
  let ?tail = "map (\<lambda>(t, k, v). (k, \<lparr>val = v, timestamp = t\<rparr>)) rest"
  let ?cm = "\<lparr>cache = (k0, ?e0) # ?tail, options = opts\<rparr>"
  let ?s = "run (\<lparr>cache = [], options = opts\<rparr>, snd (new_CacheManager opts ts))
              (map (\<lambda>(t, k, v). (t, Set k v)) ?ys)"
  have new: "new_CacheManager opts ts
               = (\<lparr>cache = [], options = opts\<rparr>, snd (new_CacheManager opts ts))"
    by (simp add: new_CacheManager_def Let_def)
  have "distinct (map (\<lambda>(t, k, v). k) ?ys)"
    using keys by simp
  moreover have "int (length ?ys) \<le> maxSize opts"
    using full by simp
  ultimately have filled: "fst ?s = ?cm"
    using run_fill [of ?ys opts] by simp
  have tail_keys: "fst ` set ?tail = (\<lambda>(t, k, v). k) ` set rest"
    by (force simp: image_iff)
  have "\<forall>(k', e') \<in> set ?tail. timestamp ?e0 \<le> timestamp e'"
    using order by auto
  then have "oldest_scan (cache ?cm) = (Some k0, Some (timestamp ?e0))"
    using oldest_scan_head [of ?tail ?e0 k0] by simp
  moreover have "k0 \<notin> fst ` set ?tail"
    using keys tail_keys by auto
  ultimately have evicted: "evictOldest ?cm = \<lparr>cache = ?tail, options = opts\<rparr>"
    using nonempty by (simp add: evictOldest_def)
  have "k \<notin> fst ` set ?tail"
    using keys tail_keys by auto
  then have "CacheManager_set ?cm t k v
               = \<lparr>cache = ?tail @ [(k, \<lparr>val = v, timestamp = t\<rparr>)], options = opts\<rparr>"
    using full by (simp add: CacheManager_set_def Let_def evicted update_fresh)
  moreover have "fst (exec ?s (t, Set k v)) = CacheManager_set ?cm t k v"
    using filled by (cases ?s) simp
  moreover have "run (new_CacheManager opts ts)
                   (map (\<lambda>(t, k, v). (t, Set k v)) (?ys @ [(t, k, v)]))
                   = exec ?s (t, Set k v)"
    using new run_snoc [of "new_CacheManager opts ts" "map (\<lambda>(t, k, v). (t, Set k v)) ?ys"
                           "(t, Set k v)"]
    by simp
  ultimately show ?thesis
    by simp
qed

section \<open>The cleanup interval\<close>

text \<open>
  Releasing a timer takes the handle that \<open>setInterval\<close> returned. No public method
  touches the timer table: whatever is scheduled stays scheduled through every sequence of
  calls.
\<close>

lemma clearInterval_releases:
  "clearInterval (fst (setInterval period ts)) (snd (setInterval period ts))
     ! fst (setInterval period ts) = None"
  by (simp add: setInterval_def clearInterval_def)

lemma exec_timers: "snd (exec s c) = snd s"
  by (cases s, cases c, rename_tac cm ts now op, case_tac op) simp_all

lemma run_timers: "snd (run s calls) = snd s"
  unfolding run_def by (induction calls arbitrary: s) (simp_all add: exec_timers)

text \<open>
  C8. The constructor schedules the sweep with period \<open>maxAge\<close> and keeps no handle;
  after \<open>set\<close>, \<open>get\<close> and \<open>clear\<close> the interval is still scheduled. The class has no
  method that calls \<open>clearInterval\<close>.
\<close>

theorem sweep_timer_never_released:
  "new_CacheManager \<lparr>maxAge = 1000, maxSize = 2\<rparr> []
     = (\<lparr>cache = [], options = \<lparr>maxAge = 1000, maxSize = 2\<rparr>\<rparr>, [Some 1000])
   \<and> snd (run (new_CacheManager \<lparr>maxAge = 1000, maxSize = 2\<rparr> [])
             [(0, Set ''a'' (JNum 1)), (1, Get ''a''), (2, Clear)]) = [Some 1000]"
  by (simp add: new_CacheManager_def setupCleanupInterval_def setInterval_def run_def
        CacheManager_set_def CacheManager_get_def clear_def)

section \<open>The attempt loop of request\<close>

text \<open>
  One unfolding of the loop for each way an iteration can end.
\<close>

lemma loop_exit:
  assumes "\<not> int attempt < retryAttempts (config client)"
  shows "attempt_loop p client key opts attempt w =
           (Inl (Error ''Request failed after all retry attempts''), client, w)"
  using assms by (subst attempt_loop.simps) simp

lemma loop_success:
  assumes "int attempt < retryAttempts (config client)"
    and "executeRequest (snd (fetch p (fetches w))) = Inr v"
  shows "attempt_loop p client key opts attempt w =
           (Inr v,
            (if useCache opts
             then client\<lparr>cacheManager :=
                    CacheManager_set (cacheManager client)
                      (clock w + fst (fetch p (fetches w))) key v\<rparr>
             else client),
            w\<lparr>clock := clock w + fst (fetch p (fetches w)), fetches := Suc (fetches w)\<rparr>)"
  using assms by (subst attempt_loop.simps) (simp add: Let_def)

lemma loop_last_failure:
  assumes "int (Suc attempt) = retryAttempts (config client)"
    and "executeRequest (snd (fetch p (fetches w))) = Inl err"
  shows "attempt_loop p client key opts attempt w =
           (Inl err, client,
            w\<lparr>clock := clock w + fst (fetch p (fetches w)), fetches := Suc (fetches w)\<rparr>)"
proof -
  have "int attempt < retryAttempts (config client)"
    using assms(1) by linarith
  then show ?thesis
    using assms by (subst attempt_loop.simps) (simp add: Let_def)
qed

lemma loop_retry:
  assumes "int (Suc attempt) < retryAttempts (config client)"
    and "executeRequest (snd (fetch p (fetches w))) = Inl err"
  shows "attempt_loop p client key opts attempt w =
           attempt_loop p client key opts (Suc attempt)
             \<lparr>clock = clock w + fst (fetch p (fetches w)) + 1000 * int (Suc attempt),
              fetches = Suc (fetches w),
              delays = delays w @ [1000 * int (Suc attempt)]\<rparr>"
proof -
  have "int attempt < retryAttempts (config client)"
    and "int (Suc attempt) \<noteq> retryAttempts (config client)"
    using assms(1) by linarith+
  then show ?thesis
    using assms(2) by (cases w, subst attempt_loop.simps) (simp add: Let_def)
qed

lemma loop_all_fail:
  assumes fails: "\<forall>i. isl (executeRequest (snd (fetch p i)))"
    and "retryAttempts (config client) = int n"
    and "attempt + Suc d = n"
  shows "fst (attempt_loop p client key opts attempt w)
           = executeRequest (snd (fetch p (fetches w + d)))
       \<and> fst (snd (attempt_loop p client key opts attempt w)) = client
       \<and> fetches (snd (snd (attempt_loop p client key opts attempt w))) = fetches w + Suc d"
  using assms(3)
proof (induction d arbitrary: attempt w)
  case 0
  obtain err where e: "executeRequest (snd (fetch p (fetches w))) = Inl err"
    using fails by (metis isl_def)
  have "int (Suc attempt) = retryAttempts (config client)"
    using 0 assms(2) by simp
  from loop_last_failure [OF this e] show ?case
    by (simp add: e)
next
  case (Suc d)
  obtain err where e: "executeRequest (snd (fetch p (fetches w))) = Inl err"
    using fails by (metis isl_def)
  have "int (Suc attempt) < retryAttempts (config client)"
    using Suc.prems assms(2) by simp
  from loop_retry [OF this e] have step:
    "attempt_loop p client key opts attempt w =
       attempt_loop p client key opts (Suc attempt)
         \<lparr>clock = clock w + fst (fetch p (fetches w)) + 1000 * int (Suc attempt),
          fetches = Suc (fetches w),
          delays = delays w @ [1000 * int (Suc attempt)]\<rparr>" .
  have "Suc attempt + Suc d = n"
    using Suc.prems by simp
  from Suc.IH [OF this] show ?case
    by (simp add: step)
qed

text \<open>
  Without a cache hit, \<open>request\<close> is the loop started at attempt 0, on a client with the
  same configuration.
\<close>

lemma request_miss:
  assumes "useCache opts \<longrightarrow>
             \<not> truthy (fst (CacheManager_get (cacheManager client) now
                              (cacheKey p method endpoint opts)))"
  shows "\<exists>client'. config client' = config client
           \<and> request p client now method endpoint opts
               = attempt_loop p client' (cacheKey p method endpoint opts) opts 0
                   \<lparr>clock = now, fetches = 0, delays = []\<rparr>"
proof (cases "useCache opts")
  case True
  let ?client = "client\<lparr>cacheManager :=
      snd (CacheManager_get (cacheManager client) now (cacheKey p method endpoint opts))\<rparr>"
  have "request p client now method endpoint opts
          = attempt_loop p ?client (cacheKey p method endpoint opts) opts 0
              \<lparr>clock = now, fetches = 0, delays = []\<rparr>"
    using True assms by (simp add: request_def Let_def)
  moreover have "config ?client = config client"
    by simp
  ultimately show ?thesis
    by blast
next
  case False
  then have "request p client now method endpoint opts
          = attempt_loop p client (cacheKey p method endpoint opts) opts 0
              \<lparr>clock = now, fetches = 0, delays = []\<rparr>"
    by (simp add: request_def Let_def)
  then show ?thesis
    by blast
qed

text \<open>
  C3, as stated, fails for a stored falsy value: \<open>get\<close> answers \<open>null\<close> for an absent key
  and for a stored \<open>null\<close> alike, and \<open>if (cached)\<close> tests truthiness. With a live entry
  holding \<open>null\<close> under the computed key, \<open>request\<close> calls \<open>fetch\<close> once and returns the
  fresh response.
\<close>

theorem request_cached_null_counterexample:
  "map_of (cache (cacheManager
             \<lparr>config = \<lparr>baseUrl = ''http://h'', timeout = 5000, retryAttempts = 3\<rparr>,
              cacheManager = \<lparr>cache = [(''GET:/x:undefined'', \<lparr>val = JNull, timestamp = 0\<rparr>)],
                              options = \<lparr>maxAge = 300000, maxSize = 100\<rparr>\<rparr>\<rparr>))
          (cacheKey \<lparr>JSON_stringify = (\<lambda>b. ''undefined''),
                     fetch = (\<lambda>i. (10, Response True 200 (Inr (JStr ''fresh''))))\<rparr>
                    ''GET'' ''/x'' \<lparr>body = JUndefined, useCache = True\<rparr>)
     = Some \<lparr>val = JNull, timestamp = 0\<rparr>
   \<and> (1::int) - 0 \<le> 300000
   \<and> fst (request \<lparr>JSON_stringify = (\<lambda>b. ''undefined''),
                    fetch = (\<lambda>i. (10, Response True 200 (Inr (JStr ''fresh''))))\<rparr>
            \<lparr>config = \<lparr>baseUrl = ''http://h'', timeout = 5000, retryAttempts = 3\<rparr>,
             cacheManager = \<lparr>cache = [(''GET:/x:undefined'', \<lparr>val = JNull, timestamp = 0\<rparr>)],
                             options = \<lparr>maxAge = 300000, maxSize = 100\<rparr>\<rparr>\<rparr>
            1 ''GET'' ''/x'' \<lparr>body = JUndefined, useCache = True\<rparr>)
       = Inr (JStr ''fresh'')
   \<and> fetches (snd (snd (request \<lparr>JSON_stringify = (\<lambda>b. ''undefined''),
                    fetch = (\<lambda>i. (10, Response True 200 (Inr (JStr ''fresh''))))\<rparr>
            \<lparr>config = \<lparr>baseUrl = ''http://h'', timeout = 5000, retryAttempts = 3\<rparr>,
             cacheManager = \<lparr>cache = [(''GET:/x:undefined'', \<lparr>val = JNull, timestamp = 0\<rparr>)],
                             options = \<lparr>maxAge = 300000, maxSize = 100\<rparr>\<rparr>\<rparr>
            1 ''GET'' ''/x'' \<lparr>body = JUndefined, useCache = True\<rparr>)))
       = 1"
  by (simp add: request_def cacheKey_def CacheManager_get_def attempt_loop.simps Let_def)

text \<open>
  C3, amended. With \<open>useCache\<close> set and a live entry with a truthy value under the computed
  key, \<open>request\<close> returns that value, leaves the client as it is, calls \<open>fetch\<close> not at all
  and waits for no delay.
\<close>

theorem request_cache_hit_truthy:
  assumes "useCache opts"
    and "map_of (cache (cacheManager client)) (cacheKey p method endpoint opts) = Some e"
    and "now - timestamp e \<le> maxAge (options (cacheManager client))"
    and "truthy (val e)"
  shows "request p client now method endpoint opts
           = (Inr (val e), client, \<lparr>clock = now, fetches = 0, delays = []\<rparr>)"
proof -
  have "CacheManager_get (cacheManager client) now (cacheKey p method endpoint opts)
          = (val e, cacheManager client)"
    using assms(2,3) by (rule get_present_fresh)
  then show ?thesis
    using assms(1,4) by (simp add: request_def Let_def)
qed

theorem request_cache_hit_truthy_witness:
  "(let p = \<lparr>JSON_stringify = (\<lambda>b. ''undefined''),
              fetch = (\<lambda>i. (10, Response True 200 (Inr (JStr ''fresh''))))\<rparr>;
        e = \<lparr>val = JStr ''cached'', timestamp = 0\<rparr>;
        client = \<lparr>config = \<lparr>baseUrl = ''http://h'', timeout = 5000, retryAttempts = 3\<rparr>,
                   cacheManager = \<lparr>cache = [(''GET:/x:undefined'', e)],
                                   options = \<lparr>maxAge = 300000, maxSize = 100\<rparr>\<rparr>\<rparr>;
        opts = \<lparr>body = JUndefined, useCache = True\<rparr>
    in useCache opts
     \<and> map_of (cache (cacheManager client)) (cacheKey p ''GET'' ''/x'' opts) = Some e
     \<and> 300000 - timestamp e \<le> maxAge (options (cacheManager client))
     \<and> truthy (val e)
     \<and> request p client 300000 ''GET'' ''/x'' opts
           = (Inr (JStr ''cached''), client, \<lparr>clock = 300000, fetches = 0, delays = []\<rparr>))"
  using request_cache_hit_truthy
          [of "\<lparr>body = JUndefined, useCache = True\<rparr>"
              "\<lparr>config = \<lparr>baseUrl = ''http://h'', timeout = 5000, retryAttempts = 3\<rparr>,
                 cacheManager = \<lparr>cache = [(''GET:/x:undefined'',
                                             \<lparr>val = JStr ''cached'', timestamp = 0\<rparr>)],
                                 options = \<lparr>maxAge = 300000, maxSize = 100\<rparr>\<rparr>\<rparr>"
              "\<lparr>JSON_stringify = (\<lambda>b. ''undefined''),
                fetch = (\<lambda>i. (10, Response True 200 (Inr (JStr ''fresh''))))\<rparr>"
              "''GET''" "''/x''"
              "\<lparr>val = JStr ''cached'', timestamp = 0\<rparr>" 300000]
  by (simp add: cacheKey_def)

text \<open>
  C4. With \<open>retryAttempts = 3\<close>, no cache hit, and a transport that fails on its first two
  calls and succeeds on the third, \<open>request\<close> resolves with the value of the third call
  after exactly three calls of \<open>fetch\<close>, having waited 1000 ms and then 2000 ms.
\<close>

theorem request_retry_twice_then_success:
  assumes "retryAttempts (config client) = 3"
    and "executeRequest (snd (fetch p 0)) = Inl e0"
    and "executeRequest (snd (fetch p 1)) = Inl e1"
    and "executeRequest (snd (fetch p 2)) = Inr v"
    and "useCache opts \<longrightarrow>
           \<not> truthy (fst (CacheManager_get (cacheManager client) now
                            (cacheKey p method endpoint opts)))"
  shows "fst (request p client now method endpoint opts) = Inr v
       \<and> fetches (snd (snd (request p client now method endpoint opts))) = 3
       \<and> delays (snd (snd (request p client now method endpoint opts))) = [1000, 2000]"
proof -
  obtain c where cfg: "config c = config client"
    and r: "request p client now method endpoint opts
              = attempt_loop p c (cacheKey p method endpoint opts) opts 0
                  \<lparr>clock = now, fetches = 0, delays = []\<rparr>"
    using request_miss [OF assms(5)] by blast
  let ?key = "cacheKey p method endpoint opts"
  let ?w1 = "\<lparr>clock = now + fst (fetch p 0) + 1000, fetches = 1, delays = [1000]\<rparr>"
  let ?w2 = "\<lparr>clock = now + fst (fetch p 0) + 1000 + fst (fetch p 1) + 2000,
              fetches = 2, delays = [1000, 2000]\<rparr>"
  have three: "retryAttempts (config c) = 3"
    using assms(1) cfg by simp
  have s1: "attempt_loop p c ?key opts 0 \<lparr>clock = now, fetches = 0, delays = []\<rparr>
              = attempt_loop p c ?key opts 1 ?w1"
    using loop_retry [of 0 c p "\<lparr>clock = now, fetches = 0, delays = []\<rparr>" e0 ?key opts]
      three assms(2) by simp
  have s2: "attempt_loop p c ?key opts 1 ?w1 = attempt_loop p c ?key opts 2 ?w2"
    using loop_retry [of 1 c p ?w1 e1 ?key opts] three assms(3)
    by (simp add: numeral_2_eq_2)
  have s3: "fst (attempt_loop p c ?key opts 2 ?w2) = Inr v
          \<and> fetches (snd (snd (attempt_loop p c ?key opts 2 ?w2))) = 3
          \<and> delays (snd (snd (attempt_loop p c ?key opts 2 ?w2))) = [1000, 2000]"
    using loop_success [of 2 c p ?w2 v ?key opts] three assms(4) by simp
  show ?thesis
    unfolding r s1 s2 by (rule s3)
qed

theorem request_retry_twice_then_success_witness:
  "(let p = \<lparr>JSON_stringify = (\<lambda>b. ''undefined''),
              fetch = (\<lambda>i. (10, if i < 2 then Rejected (Error ''down'')
                                else Response True 200 (Inr (JStr ''ok''))))\<rparr>;
        client = \<lparr>config = \<lparr>baseUrl = ''http://h'', timeout = 5000, retryAttempts = 3\<rparr>,
                   cacheManager = \<lparr>cache = [], options = \<lparr>maxAge = 300000, maxSize = 100\<rparr>\<rparr>\<rparr>;
        opts = \<lparr>body = JUndefined, useCache = True\<rparr>
    in retryAttempts (config client) = 3
     \<and> executeRequest (snd (fetch p 0)) = Inl (Error ''down'')
     \<and> executeRequest (snd (fetch p 1)) = Inl (Error ''down'')
     \<and> executeRequest (snd (fetch p 2)) = Inr (JStr ''ok'')
     \<and> \<not> truthy (fst (CacheManager_get (cacheManager client) 0 (cacheKey p ''GET'' ''/x'' opts)))
     \<and> fst (request p client 0 ''GET'' ''/x'' opts) = Inr (JStr ''ok'')
     \<and> fetches (snd (snd (request p client 0 ''GET'' ''/x'' opts))) = 3
     \<and> delays (snd (snd (request p client 0 ''GET'' ''/x'' opts))) = [1000, 2000])"
  using request_retry_twice_then_success
          [of "\<lparr>config = \<lparr>baseUrl = ''http://h'', timeout = 5000, retryAttempts = 3\<rparr>,
                 cacheManager = \<lparr>cache = [], options = \<lparr>maxAge = 300000, maxSize = 100\<rparr>\<rparr>\<rparr>"
              "\<lparr>JSON_stringify = (\<lambda>b. ''undefined''),
                fetch = (\<lambda>i. (10, if i < 2 then Rejected (Error ''down'')
                                  else Response True 200 (Inr (JStr ''ok''))))\<rparr>"
              "Error ''down''" "Error ''down''" "JStr ''ok''"
              "\<lparr>body = JUndefined, useCache = True\<rparr>" 0 "''GET''" "''/x''"]
  by (simp add: CacheManager_get_def)

text \<open>
  C5, as stated, fails: no exhaustion failure is ever built. With \<open>retryAttempts = 2\<close> and
  a transport that rejects with \<open>refused\<close> and then with \<open>reset\<close>, \<open>request\<close> rejects with
  the second transport error itself, the very value the last call of \<open>executeRequest\<close>
  threw (\<open>throw error\<close>); it is not the one error that \<open>request\<close> constructs, and nothing
  wraps it.
\<close>

theorem request_exhaustion_raw_error_counterexample:
  "fst (request \<lparr>JSON_stringify = (\<lambda>b. ''undefined''),
                  fetch = (\<lambda>i. (10, Rejected (Error (if i = 0 then ''refused'' else ''reset''))))\<rparr>
          \<lparr>config = \<lparr>baseUrl = ''http://h'', timeout = 5000, retryAttempts = 2\<rparr>,
           cacheManager = \<lparr>cache = [], options = \<lparr>maxAge = 300000, maxSize = 100\<rparr>\<rparr>\<rparr>
          0 ''GET'' ''/x'' \<lparr>body = JUndefined, useCache = False\<rparr>)
     = Inl (Error ''reset'')
   \<and> executeRequest (snd (fetch \<lparr>JSON_stringify = (\<lambda>b. ''undefined''),
                  fetch = (\<lambda>i. (10, Rejected (Error (if i = 0 then ''refused'' else ''reset''))))\<rparr> 1))
     = Inl (Error ''reset'')
   \<and> fst (request \<lparr>JSON_stringify = (\<lambda>b. ''undefined''),
                  fetch = (\<lambda>i. (10, Rejected (Error (if i = 0 then ''refused'' else ''reset''))))\<rparr>
          \<lparr>config = \<lparr>baseUrl = ''http://h'', timeout = 5000, retryAttempts = 2\<rparr>,
           cacheManager = \<lparr>cache = [], options = \<lparr>maxAge = 300000, maxSize = 100\<rparr>\<rparr>\<rparr>
          0 ''GET'' ''/x'' \<lparr>body = JUndefined, useCache = False\<rparr>)
     \<noteq> Inl (Error ''Request failed after all retry attempts'')"
  by (simp add: request_def cacheKey_def attempt_loop.simps Let_def)

text \<open>
  C5, amended. With \<open>retryAttempts = n\<close>, \<open>n \<ge> 1\<close>, no cache hit, and a transport that
  fails on every call, \<open>request\<close> calls \<open>fetch\<close> exactly \<open>n\<close> times and then fails: it
  rejects with the error of the last call, rethrown as it is. The failure always reaches
  the caller.
\<close>

theorem request_exhaustion:
  assumes "1 \<le> n"
    and "retryAttempts (config client) = int n"
    and "\<forall>i. isl (executeRequest (snd (fetch p i)))"
    and "useCache opts \<longrightarrow>
           \<not> truthy (fst (CacheManager_get (cacheManager client) now
                            (cacheKey p method endpoint opts)))"
  shows "\<exists>err. executeRequest (snd (fetch p (n - 1))) = Inl err
             \<and> fst (request p client now method endpoint opts) = Inl err
             \<and> fetches (snd (snd (request p client now method endpoint opts))) = n"
proof -
  obtain err where e: "executeRequest (snd (fetch p (n - 1))) = Inl err"
    using assms(3) by (metis isl_def)
  have n: "0 + Suc (n - 1) = n"
    using assms(1) by simp
  let ?w = "\<lparr>clock = now, fetches = 0, delays = []\<rparr>"
  let ?key = "cacheKey p method endpoint opts"
  show ?thesis
  proof (cases "useCache opts")
    case True
    let ?client = "client\<lparr>cacheManager := snd (CacheManager_get (cacheManager client) now ?key)\<rparr>"
    have r: "request p client now method endpoint opts = attempt_loop p ?client ?key opts 0 ?w"
      using True assms(4) by (simp add: request_def Let_def)
    have "retryAttempts (config ?client) = int n"
      using assms(2) by simp
    from loop_all_fail [OF assms(3) this n, of ?key opts ?w] show ?thesis
      using e assms(1) by (simp add: r)
  next
    case False
    have r: "request p client now method endpoint opts = attempt_loop p client ?key opts 0 ?w"
      using False by (simp add: request_def Let_def)
    from loop_all_fail [OF assms(3) assms(2) n, of ?key opts ?w] show ?thesis
      using e assms(1) by (simp add: r)
  qed
qed

theorem request_exhaustion_witness:
  "(let p = \<lparr>JSON_stringify = (\<lambda>b. ''undefined''),
              fetch = (\<lambda>i. (10, Response False (500 + i) (Inr JNull)))\<rparr>;
        client = \<lparr>config = \<lparr>baseUrl = ''http://h'', timeout = 5000, retryAttempts = 2\<rparr>,
                   cacheManager = \<lparr>cache = [], options = \<lparr>maxAge = 300000, maxSize = 100\<rparr>\<rparr>\<rparr>;
        opts = \<lparr>body = JUndefined, useCache = False\<rparr>
    in (1::nat) \<le> 2
     \<and> retryAttempts (config client) = int 2
     \<and> (\<forall>i. isl (executeRequest (snd (fetch p i))))
     \<and> fst (request p client 0 ''GET'' ''/x'' opts) = Inl (HttpError 501)
     \<and> fetches (snd (snd (request p client 0 ''GET'' ''/x'' opts))) = 2)"
  using request_exhaustion
          [of 2 "\<lparr>config = \<lparr>baseUrl = ''http://h'', timeout = 5000, retryAttempts = 2\<rparr>,
                 cacheManager = \<lparr>cache = [], options = \<lparr>maxAge = 300000, maxSize = 100\<rparr>\<rparr>\<rparr>"
              "\<lparr>JSON_stringify = (\<lambda>b. ''undefined''),
                fetch = (\<lambda>i. (10, Response False (500 + i) (Inr JNull)))\<rparr>"
              "\<lparr>body = JUndefined, useCache = False\<rparr>" 0 "''GET''" "''/x''"]
  by simp

text \<open>
  C9. With \<open>retryAttempts \<le> 0\<close> and no cache hit, the loop body never runs: no call of
  \<open>fetch\<close>, no delay, and \<open>request\<close> fails with the error
  \<open>Request failed after all retry attempts\<close>.
\<close>

theorem request_no_attempts:
  assumes "retryAttempts (config client) \<le> 0"
    and "useCache opts \<longrightarrow>
           \<not> truthy (fst (CacheManager_get (cacheManager client) now
                            (cacheKey p method endpoint opts)))"
  shows "fst (request p client now method endpoint opts)
           = Inl (Error ''Request failed after all retry attempts'')
       \<and> fetches (snd (snd (request p client now method endpoint opts))) = 0
       \<and> delays (snd (snd (request p client now method endpoint opts))) = []"
proof -
  obtain c where cfg: "config c = config client"
    and r: "request p client now method endpoint opts
              = attempt_loop p c (cacheKey p method endpoint opts) opts 0
                  \<lparr>clock = now, fetches = 0, delays = []\<rparr>"
    using request_miss [OF assms(2)] by blast
  have "\<not> int 0 < retryAttempts (config c)"
    using assms(1) cfg by simp
  from loop_exit [OF this] show ?thesis
    by (simp add: r)
qed

theorem request_no_attempts_witness:
  "(let p = \<lparr>JSON_stringify = (\<lambda>b. ''undefined''),
              fetch = (\<lambda>i. (10, Response True 200 (Inr (JStr ''ok''))))\<rparr>;
        client = \<lparr>config = \<lparr>baseUrl = ''http://h'', timeout = 5000, retryAttempts = 0\<rparr>,
                   cacheManager = \<lparr>cache = [], options = \<lparr>maxAge = 300000, maxSize = 100\<rparr>\<rparr>\<rparr>;
        opts = \<lparr>body = JUndefined, useCache = True\<rparr>
    in retryAttempts (config client) \<le> 0
     \<and> \<not> truthy (fst (CacheManager_get (cacheManager client) 0 (cacheKey p ''GET'' ''/x'' opts)))
     \<and> fst (request p client 0 ''GET'' ''/x'' opts)
           = Inl (Error ''Request failed after all retry attempts'')
     \<and> fetches (snd (snd (request p client 0 ''GET'' ''/x'' opts))) = 0
     \<and> delays (snd (snd (request p client 0 ''GET'' ''/x'' opts))) = [])"
  using request_no_attempts
          [of "\<lparr>config = \<lparr>baseUrl = ''http://h'', timeout = 5000, retryAttempts = 0\<rparr>,
                 cacheManager = \<lparr>cache = [], options = \<lparr>maxAge = 300000, maxSize = 100\<rparr>\<rparr>\<rparr>"
              "\<lparr>body = JUndefined, useCache = True\<rparr>" 0
              "\<lparr>JSON_stringify = (\<lambda>b. ''undefined''),
                fetch = (\<lambda>i. (10, Response True 200 (Inr (JStr ''ok''))))\<rparr>"
              "''GET''" "''/x''"]
  by (simp add: CacheManager_get_def)

end
